theory Spec2Isabelle
  imports Main
begin

section \<open>The selection engine of useArtworkSelection.ts\<close>

text \<open>
  The engine keeps a base selection mode and four override sets over a paginated
  collection. JavaScript numbers that hold counts and absolute indices are integers
  here; a JavaScript \<open>Set\<close> is the set of its elements (its size is \<open>card\<close>; the
  sets of every reachable state are finite, so \<open>card\<close> counts them), a JavaScript
  \<open>Map\<close> is a partial function (\<open>get\<close> of a missing key is \<open>None\<close>). The order
  in which a \<open>Set\<close> iterates, and so the order of the arrays in a descriptor, is
  not modelled: a descriptor carries the sets.
\<close>

subsection \<open>Data model\<close>

text \<open>The mode \<open>'ALL'\<close> is written \<open>ALL'\<close>: \<open>ALL\<close> is the quantifier of HOL.\<close>

datatype SelectionMode = NONE | EXPLICIT | RANGE | ALL'

record SelectionOverrides =
  includedIds :: "string set"
  excludedIds :: "string set"
  includedIndices :: "int set"
  excludedIndices :: "int set"

record SelectionState =
  mode :: SelectionMode
  rangeCount :: int
  totalRecords :: int
  overrides :: SelectionOverrides
  indexToIdCache :: "int \<rightharpoonup> string"
  idToIndexCache :: "string \<rightharpoonup> int"

record SelectionDescriptor =
  d_mode :: SelectionMode
  d_rangeCount :: "int option"
  d_includedIds :: "string set option"
  d_excludedIds :: "string set option"
  d_excludedIndices :: "int set option"

type_synonym PageRowAt = "string \<times> int"

datatype SelectionAction =
    TOGGLE_ROW string int
  | SELECT_ALL_PAGE "PageRowAt list"
  | DESELECT_ALL_PAGE "PageRowAt list"
  | BULK_SELECT int
  | SELECT_ALL
  | CLEAR_SELECTION
  | UPDATE_TOTAL_RECORDS int
  | SYNC_PAGE_SELECTION "PageRowAt list" bool

subsection \<open>State construction and queries\<close>

definition createFreshOverrides :: SelectionOverrides where
  "createFreshOverrides =
     \<lparr> includedIds = {}, excludedIds = {}, includedIndices = {}, excludedIndices = {} \<rparr>"

definition createInitialState :: "int \<Rightarrow> SelectionState" where
  "createInitialState initialTotal =
     \<lparr> mode = NONE, rangeCount = 0, totalRecords = initialTotal,
       overrides = \<lparr> includedIds = {}, excludedIds = {},
                     includedIndices = {}, excludedIndices = {} \<rparr>,
       indexToIdCache = Map.empty, idToIndexCache = Map.empty \<rparr>"

definition wouldBaseModeSelect :: "SelectionState \<Rightarrow> int \<Rightarrow> bool" where
  "wouldBaseModeSelect state absoluteIndex =
     (case mode state of
        ALL' \<Rightarrow> True
      | RANGE \<Rightarrow> absoluteIndex < rangeCount state
      | NONE \<Rightarrow> False
      | EXPLICIT \<Rightarrow> False)"

definition checkIsRowSelected :: "SelectionState \<Rightarrow> string \<Rightarrow> int \<Rightarrow> bool" where
  "checkIsRowSelected state ident absoluteIndex =
     (if ident \<in> excludedIds (overrides state) then False
      else if ident \<in> includedIds (overrides state) then True
      else if absoluteIndex \<in> excludedIndices (overrides state) then False
      else if absoluteIndex \<in> includedIndices (overrides state) then True
      else (case mode state of
              NONE \<Rightarrow> False
            | ALL' \<Rightarrow> True
            | RANGE \<Rightarrow> absoluteIndex < rangeCount state
            | EXPLICIT \<Rightarrow> False))"

text \<open>
  The two \<open>forEach\<close> passes of the count over a set of ids: the indices the cache knows
  for them, and the ids the cache does not know.
\<close>

definition resolvedIndices :: "SelectionState \<Rightarrow> string set \<Rightarrow> int set" where
  "resolvedIndices state ids = Option.these (idToIndexCache state ` ids)"

definition unknownIds :: "SelectionState \<Rightarrow> string set \<Rightarrow> string set" where
  "unknownIds state ids = Set.filter (\<lambda>ident. idToIndexCache state ident = None) ids"

definition additionalInclusions :: "SelectionState \<Rightarrow> nat" where
  "additionalInclusions state =
     card (Set.filter (\<lambda>i. \<not> wouldBaseModeSelect state i) (includedIndices (overrides state)))
     + card (Set.filter
         (\<lambda>ident. case idToIndexCache state ident of
                     Some i \<Rightarrow> \<not> wouldBaseModeSelect state i
                   | None \<Rightarrow> True)
         (includedIds (overrides state)))"

definition calculateSelectedCount :: "SelectionState \<Rightarrow> int" where
  "calculateSelectedCount state =
     (let baseCount = (case mode state of
                         NONE \<Rightarrow> 0
                       | ALL' \<Rightarrow> totalRecords state
                       | RANGE \<Rightarrow> min (rangeCount state) (totalRecords state)
                       | EXPLICIT \<Rightarrow> 0)
      in if mode state = EXPLICIT \<or> mode state = NONE then
           int (card (includedIndices (overrides state)
                      \<union> resolvedIndices state (includedIds (overrides state))))
           + int (card (unknownIds state (includedIds (overrides state))))
         else
           max 0 (baseCount
                  - int (card (excludedIndices (overrides state)
                               \<union> resolvedIndices state (excludedIds (overrides state))))
                  - int (card (unknownIds state (excludedIds (overrides state))))
                  + int (additionalInclusions state)))"

definition getSelectionDescriptor :: "SelectionState \<Rightarrow> SelectionDescriptor" where
  "getSelectionDescriptor state =
     (case mode state of
        RANGE \<Rightarrow>
          \<lparr> d_mode = RANGE, d_rangeCount = Some (rangeCount state), d_includedIds = None,
            d_excludedIds = (if excludedIds (overrides state) \<noteq> {}
                             then Some (excludedIds (overrides state)) else None),
            d_excludedIndices = (if excludedIndices (overrides state) \<noteq> {}
                                 then Some (excludedIndices (overrides state)) else None) \<rparr>
      | ALL' \<Rightarrow>
          \<lparr> d_mode = ALL', d_rangeCount = None, d_includedIds = None,
            d_excludedIds = (if excludedIds (overrides state) \<noteq> {}
                             then Some (excludedIds (overrides state)) else None),
            d_excludedIndices = None \<rparr>
      | EXPLICIT \<Rightarrow>
          \<lparr> d_mode = EXPLICIT, d_rangeCount = None,
            d_includedIds = Some (includedIds (overrides state)),
            d_excludedIds = None, d_excludedIndices = None \<rparr>
      | NONE \<Rightarrow>
          \<lparr> d_mode = NONE, d_rangeCount = None, d_includedIds = None,
            d_excludedIds = None, d_excludedIndices = None \<rparr>)"

subsection \<open>The reducer\<close>

text \<open>
  The page commands run \<open>rows.forEach\<close> over three mutable copies (the overrides and the
  two caches) while reading the base mode from the unchanged \<open>state\<close>; the copies are
  the accumulator of a left fold.
\<close>

type_synonym RowAcc = "SelectionOverrides \<times> (int \<rightharpoonup> string) \<times> (string \<rightharpoonup> int)"

definition selectRow :: "SelectionState \<Rightarrow> RowAcc \<Rightarrow> PageRowAt \<Rightarrow> RowAcc" where
  "selectRow state acc row =
     (case (acc, row) of ((ov, i2id, id2i), (ident, absoluteIndex)) \<Rightarrow>
        (let ov1 = ov\<lparr> excludedIds := excludedIds ov - {ident},
                       excludedIndices := excludedIndices ov - {absoluteIndex} \<rparr>;
             ov2 = (if \<not> wouldBaseModeSelect state absoluteIndex
                    then ov1\<lparr> includedIds := insert ident (includedIds ov1),
                              includedIndices := insert absoluteIndex (includedIndices ov1) \<rparr>
                    else ov1)
         in (ov2, i2id(absoluteIndex \<mapsto> ident), id2i(ident \<mapsto> absoluteIndex))))"

definition deselectRow :: "SelectionState \<Rightarrow> RowAcc \<Rightarrow> PageRowAt \<Rightarrow> RowAcc" where
  "deselectRow state acc row =
     (case (acc, row) of ((ov, i2id, id2i), (ident, absoluteIndex)) \<Rightarrow>
        (let ov1 = ov\<lparr> includedIds := includedIds ov - {ident},
                       includedIndices := includedIndices ov - {absoluteIndex} \<rparr>;
             ov2 = (if wouldBaseModeSelect state absoluteIndex
                    then ov1\<lparr> excludedIds := insert ident (excludedIds ov1),
                              excludedIndices := insert absoluteIndex (excludedIndices ov1) \<rparr>
                    else ov1)
         in (ov2, i2id(absoluteIndex \<mapsto> ident), id2i(ident \<mapsto> absoluteIndex))))"

definition syncRow :: "SelectionState \<Rightarrow> bool \<Rightarrow> RowAcc \<Rightarrow> PageRowAt \<Rightarrow> RowAcc" where
  "syncRow state selected acc row =
     (if selected then selectRow state acc row else deselectRow state acc row)"

definition withRows :: "SelectionState \<Rightarrow> SelectionMode \<Rightarrow> RowAcc \<Rightarrow> SelectionState" where
  "withRows state newMode acc =
     (case acc of (ov, i2id, id2i) \<Rightarrow>
        state\<lparr> mode := newMode, overrides := ov,
               indexToIdCache := i2id, idToIndexCache := id2i \<rparr>)"

definition startRows :: "SelectionState \<Rightarrow> RowAcc" where
  "startRows state = (overrides state, indexToIdCache state, idToIndexCache state)"

fun selectionReducer :: "SelectionState \<Rightarrow> SelectionAction \<Rightarrow> SelectionState" where
  "selectionReducer state (TOGGLE_ROW ident absoluteIndex) =
     (let isCurrentlySelected = checkIsRowSelected state ident absoluteIndex;
          ov = overrides state;
          newOverrides =
            (if isCurrentlySelected then
               (let ov1 = ov\<lparr> includedIds := includedIds ov - {ident},
                              includedIndices := includedIndices ov - {absoluteIndex} \<rparr>
                in if wouldBaseModeSelect state absoluteIndex
                   then ov1\<lparr> excludedIds := insert ident (excludedIds ov1),
                             excludedIndices := insert absoluteIndex (excludedIndices ov1) \<rparr>
                   else ov1)
             else
               (let ov1 = ov\<lparr> excludedIds := excludedIds ov - {ident},
                              excludedIndices := excludedIndices ov - {absoluteIndex} \<rparr>
                in if \<not> wouldBaseModeSelect state absoluteIndex
                   then ov1\<lparr> includedIds := insert ident (includedIds ov1),
                             includedIndices := insert absoluteIndex (includedIndices ov1) \<rparr>
                   else ov1));
          newMode = (if mode state = NONE \<and> \<not> isCurrentlySelected then EXPLICIT
                     else mode state)
      in state\<lparr> mode := newMode, overrides := newOverrides,
                indexToIdCache := (indexToIdCache state)(absoluteIndex \<mapsto> ident),
                idToIndexCache := (idToIndexCache state)(ident \<mapsto> absoluteIndex) \<rparr>)"
| "selectionReducer state (SELECT_ALL_PAGE rows) =
     withRows state (if mode state = NONE then EXPLICIT else mode state)
       (foldl (selectRow state) (startRows state) rows)"
| "selectionReducer state (DESELECT_ALL_PAGE rows) =
     withRows state (mode state) (foldl (deselectRow state) (startRows state) rows)"
| "selectionReducer state (BULK_SELECT count) =
     (let clampedCount = min (max 0 count) (totalRecords state)
      in if clampedCount = 0
         then state\<lparr> mode := NONE, rangeCount := 0, overrides := createFreshOverrides \<rparr>
         else state\<lparr> mode := RANGE, rangeCount := clampedCount,
                     overrides := createFreshOverrides \<rparr>)"
| "selectionReducer state SELECT_ALL =
     state\<lparr> mode := ALL', rangeCount := totalRecords state,
            overrides := createFreshOverrides \<rparr>"
| "selectionReducer state CLEAR_SELECTION =
     state\<lparr> mode := NONE, rangeCount := 0, overrides := createFreshOverrides \<rparr>"
| "selectionReducer state (UPDATE_TOTAL_RECORDS newTotal) =
     (let newRangeCount = (if mode state = RANGE then min (rangeCount state) newTotal
                           else rangeCount state)
      in state\<lparr> totalRecords := newTotal, rangeCount := newRangeCount \<rparr>)"
| "selectionReducer state (SYNC_PAGE_SELECTION rows selected) =
     withRows state (if mode state = NONE \<and> selected then EXPLICIT else mode state)
       (foldl (syncRow state selected) (startRows state) rows)"

text \<open>
  A run of commands, and the states that the reducer reaches from a state the hook
  creates: \<open>useReducer\<close> starts from \<open>createInitialState\<close> and every dispatch
  applies \<open>selectionReducer\<close>.
\<close>

definition runCommands :: "SelectionState \<Rightarrow> SelectionAction list \<Rightarrow> SelectionState" where
  "runCommands state actions = foldl selectionReducer state actions"

inductive reachable :: "SelectionState \<Rightarrow> bool" where
  initial: "reachable (createInitialState initialTotal)"
| step: "reachable state \<Longrightarrow> reachable (selectionReducer state action)"

subsection \<open>Reading a descriptor\<close>

text \<open>
  The repository has no consumer of a descriptor; the wire shape says that only the
  fields of the mode are present and that an absent field means no override of that
  kind. \<open>descriptorSelects\<close> is that reading, written after the specification and
  not after code: the overrides the descriptor carries, in the order of the membership
  query, then the default of the mode.
\<close>

definition fieldOrEmpty :: "'a set option \<Rightarrow> 'a set" where
  "fieldOrEmpty field = (case field of Some elems \<Rightarrow> elems | None \<Rightarrow> {})"

definition descriptorSelects :: "SelectionDescriptor \<Rightarrow> string \<Rightarrow> int \<Rightarrow> bool" where
  "descriptorSelects d ident absoluteIndex =
     (if ident \<in> fieldOrEmpty (d_excludedIds d) then False
      else if ident \<in> fieldOrEmpty (d_includedIds d) then True
      else if absoluteIndex \<in> fieldOrEmpty (d_excludedIndices d) then False
      else (case d_mode d of
              NONE \<Rightarrow> False
            | ALL' \<Rightarrow> True
            | RANGE \<Rightarrow> (case d_rangeCount d of Some n \<Rightarrow> absoluteIndex < n | None \<Rightarrow> False)
            | EXPLICIT \<Rightarrow> False))"

subsection \<open>Predicates on states\<close>

text \<open>
  What holds of the overrides and the caches along every run: no id and no index is
  both included and excluded, and for a pair that both caches hold the id-keyed and
  the index-keyed overrides are not opposed.
\<close>

definition overridesAgree :: "RowAcc \<Rightarrow> bool" where
  "overridesAgree acc =
     (case acc of (ov, i2id, id2i) \<Rightarrow>
        includedIds ov \<inter> excludedIds ov = {}
      \<and> includedIndices ov \<inter> excludedIndices ov = {}
      \<and> (\<forall>ident i. id2i ident = Some i \<and> i2id i = Some ident \<longrightarrow>
            \<not> (ident \<in> includedIds ov \<and> i \<in> excludedIndices ov)
          \<and> \<not> (ident \<in> excludedIds ov \<and> i \<in> includedIndices ov)))"

text \<open>Every id with an override has a cached index, and the four sets are finite.\<close>

definition idsKnown :: "RowAcc \<Rightarrow> bool" where
  "idsKnown acc =
     (case acc of (ov, i2id, id2i) \<Rightarrow>
        includedIds ov \<union> excludedIds ov \<subseteq> dom id2i
      \<and> finite (includedIds ov) \<and> finite (excludedIds ov)
      \<and> finite (includedIndices ov) \<and> finite (excludedIndices ov))"

text \<open>
  Which overrides a mode can carry: none under \<open>NONE\<close>, no exclusions under
  \<open>EXPLICIT\<close>, no inclusions under \<open>ALL\<close>.
\<close>

definition modeShape :: "SelectionState \<Rightarrow> bool" where
  "modeShape s =
     ((mode s = NONE \<longrightarrow> rangeCount s = 0
          \<and> includedIds (overrides s) = {} \<and> includedIndices (overrides s) = {})
    \<and> (mode s = NONE \<or> mode s = EXPLICIT \<longrightarrow>
          excludedIds (overrides s) = {} \<and> excludedIndices (overrides s) = {})
    \<and> (mode s = ALL' \<longrightarrow>
          includedIds (overrides s) = {} \<and> includedIndices (overrides s) = {}))"

text \<open>
  The overrides of one record are canonical when its id and its index are overridden
  alike, it is not included and excluded at once, and neither override repeats the
  default of the base mode.
\<close>

definition rowCanonical :: "SelectionState \<Rightarrow> string \<Rightarrow> int \<Rightarrow> bool" where
  "rowCanonical s ident i =
     ((ident \<in> includedIds (overrides s) \<longleftrightarrow> i \<in> includedIndices (overrides s))
    \<and> (ident \<in> excludedIds (overrides s) \<longleftrightarrow> i \<in> excludedIndices (overrides s))
    \<and> \<not> (ident \<in> includedIds (overrides s) \<and> ident \<in> excludedIds (overrides s))
    \<and> (ident \<in> includedIds (overrides s) \<longrightarrow> \<not> wouldBaseModeSelect s i)
    \<and> (ident \<in> excludedIds (overrides s) \<longrightarrow> wouldBaseModeSelect s i))"

text \<open>
  For a pair that both caches hold, an override of the index comes with the same
  override of the id. \<open>pairedFor s\<close> adds what the mode of \<open>s\<close> excludes, for the
  accumulator of a page command that runs from \<open>s\<close>.
\<close>

definition pairedOverrides :: "RowAcc \<Rightarrow> bool" where
  "pairedOverrides acc =
     (case acc of (ov, i2id, id2i) \<Rightarrow>
        (\<forall>ident i. id2i ident = Some i \<and> i2id i = Some ident \<longrightarrow>
           (i \<in> includedIndices ov \<longrightarrow> ident \<in> includedIds ov)
         \<and> (i \<in> excludedIndices ov \<longrightarrow> ident \<in> excludedIds ov)))"

definition pairedFor :: "SelectionState \<Rightarrow> RowAcc \<Rightarrow> bool" where
  "pairedFor s acc =
     (pairedOverrides acc
      \<and> (mode s = ALL' \<longrightarrow> includedIds (fst acc) = {} \<and> includedIndices (fst acc) = {})
      \<and> (mode s = NONE \<or> mode s = EXPLICIT \<longrightarrow>
            excludedIds (fst acc) = {} \<and> excludedIndices (fst acc) = {}))"

section \<open>The record source: fetchArtworks of services/artworkService.ts\<close>

text \<open>
  \<open>fetchArtworks\<close> is asynchronous and talks to the network. The network is a
  parameter here: a function from the requested URL to what \<open>fetch\<close> does with it,
  either a rejection or a response whose \<open>json()\<close> either rejects or yields a parsed
  value. The function returns what it returns or throws, together with the list of
  requests it made.
\<close>

datatype JsError =
    TypeError string
  | SyntaxError string
  | ArtworkServiceError string "int option" "JsError option"

datatype JsValue =
    JUndefined
  | JNull
  | JBool bool
  | JNumber int
  | JString string
  | JArray "JsValue list"
  | JObject "(string \<times> JsValue) list"

record HttpResponse =
  ok :: bool
  status :: int
  statusText :: string
  json :: "JsError + JsValue"

type_synonym Network = "string \<Rightarrow> JsError + HttpResponse"

text \<open>JavaScript's truthiness, as \<open>!\<close> tests it.\<close>

fun truthy :: "JsValue \<Rightarrow> bool" where
  "truthy JUndefined = False"
| "truthy JNull = False"
| "truthy (JBool b) = b"
| "truthy (JNumber n) = (n \<noteq> 0)"
| "truthy (JString s) = (s \<noteq> [])"
| "truthy (JArray _) = True"
| "truthy (JObject _) = True"

text \<open>
  Reading the property \<open>data\<close> or \<open>pagination\<close> of a parsed value: an object gives
  the member (the last one, if the text repeated the key), every other value that can
  be read gives \<open>undefined\<close>.
\<close>

fun getProperty :: "JsValue \<Rightarrow> string \<Rightarrow> JsValue" where
  "getProperty (JObject members) key =
     (case map_of (rev members) key of Some v \<Rightarrow> v | None \<Rightarrow> JUndefined)"
| "getProperty _ key = JUndefined"

definition digitChar :: "nat \<Rightarrow> char" where
  "digitChar d = char_of (48 + d)"

fun showNat :: "nat \<Rightarrow> string" where
  "showNat n = (if n < 10 then [digitChar n] else showNat (n div 10) @ [digitChar (n mod 10)])"

definition showInt :: "int \<Rightarrow> string" where
  "showInt k = (if k < 0 then CHR ''-'' # showNat (nat (- k)) else showNat (nat k))"

definition API_BASE_URL :: string where
  "API_BASE_URL = ''https://api.artic.edu/api/v1/artworks''"

definition API_FIELDS :: "string list" where
  "API_FIELDS = [''id'', ''title'', ''place_of_origin'', ''artist_titles'',
                 ''inscriptions'', ''date_start'', ''date_end'']"

text \<open>The query string escapes the commas of the joined field list as \<open>%2C\<close>.\<close>

fun joinEscaped :: "string list \<Rightarrow> string" where
  "joinEscaped [] = []"
| "joinEscaped [x] = x"
| "joinEscaped (x # y # ys) = x @ ''%2C'' @ joinEscaped (y # ys)"

definition requestUrl :: "int \<Rightarrow> int \<Rightarrow> string" where
  "requestUrl page limit =
     API_BASE_URL @ ''?page='' @ showInt page @ ''&limit='' @ showInt limit
       @ ''&fields='' @ joinEscaped API_FIELDS"

definition httpError :: "HttpResponse \<Rightarrow> JsError" where
  "httpError response =
     (let text = (if statusText response \<noteq> [] then statusText response
                  else ''Unknown error'')
      in if status response = 400 then
           ArtworkServiceError ''Bad Request: Invalid parameters sent to API''
             (Some (status response)) None
         else if status response = 404 then
           ArtworkServiceError ''Not Found: The requested resource does not exist''
             (Some (status response)) None
         else if status response = 429 then
           ArtworkServiceError ''Rate Limited: Too many requests. Please try again later''
             (Some (status response)) None
         else if status response \<in> {500, 502, 503, 504} then
           ArtworkServiceError
             ''Server Error: The Art Institute of Chicago API is temporarily unavailable''
             (Some (status response)) None
         else
           ArtworkServiceError
             (''API Error: '' @ showInt (status response) @ '' '' @ text)
             (Some (status response)) None)"

definition fetchArtworks :: "Network \<Rightarrow> int \<Rightarrow> int \<Rightarrow> (JsError + JsValue) \<times> string list" where
  "fetchArtworks network page limit =
     (if page < 1 then
        (Inl (ArtworkServiceError ''Page number must be at least 1'' None None), [])
      else if limit < 1 \<or> limit > 100 then
        (Inl (ArtworkServiceError ''Limit must be between 1 and 100'' None None), [])
      else
        (let url = requestUrl page limit in
         case network url of
           Inl err \<Rightarrow>
             (Inl (ArtworkServiceError
                ''Network error: Unable to connect to the Art Institute of Chicago API''
                None (Some err)), [url])
         | Inr response \<Rightarrow>
             if \<not> ok response then (Inl (httpError response), [url])
             else (case json response of
                     Inl err \<Rightarrow>
                       (Inl (ArtworkServiceError
                          ''Parse Error: Failed to parse API response as JSON''
                          None (Some err)), [url])
                   | Inr parsed \<Rightarrow>
                       if \<not> truthy parsed \<or> \<not> truthy (getProperty parsed ''data'')
                          \<or> \<not> truthy (getProperty parsed ''pagination'')
                       then
                         (Inl (ArtworkServiceError
                            ''Invalid Response: API response does not match expected format''
                            None None), [url])
                       else (Inr parsed, [url]))))"

text \<open>
  The failure classes, in the words of the specification: bad arguments, a failed
  request, a response that is not ok, a body that does not parse, a parsed body
  without \<open>data\<close> or \<open>pagination\<close> (absent, or present with a value that JavaScript
  takes for false).
\<close>

datatype FailureClass =
  InvalidArguments | RequestFailed | StatusNotOk | BodyNotJson | FieldsMissing

definition lacksField :: "JsValue \<Rightarrow> string \<Rightarrow> bool" where
  "lacksField parsed key = (\<not> truthy (getProperty parsed key))"

definition failureClass :: "Network \<Rightarrow> int \<Rightarrow> int \<Rightarrow> FailureClass option" where
  "failureClass network page limit =
     (if page < 1 \<or> limit < 1 \<or> limit > 100 then Some InvalidArguments
      else case network (requestUrl page limit) of
             Inl err \<Rightarrow> Some RequestFailed
           | Inr response \<Rightarrow>
               if \<not> ok response then Some StatusNotOk
               else (case json response of
                       Inl err \<Rightarrow> Some BodyNotJson
                     | Inr parsed \<Rightarrow>
                         if lacksField parsed ''data'' \<or> lacksField parsed ''pagination''
                         then Some FieldsMissing else None))"

definition thrownMessage :: "JsError + JsValue \<Rightarrow> string option" where
  "thrownMessage result =
     (case result of
        Inl (ArtworkServiceError message code cause) \<Rightarrow> Some message
      | Inl (TypeError message) \<Rightarrow> Some message
      | Inl (SyntaxError message) \<Rightarrow> Some message
      | Inr v \<Rightarrow> None)"

text \<open>The failure class that the first three characters of a message stand for.\<close>

definition messageClass :: "string \<Rightarrow> FailureClass option" where
  "messageClass message =
     (let head = take 3 message
      in if head = ''Pag'' \<or> head = ''Lim'' then Some InvalidArguments
         else if head = ''Net'' then Some RequestFailed
         else if head = ''Bad'' \<or> head = ''Not'' \<or> head = ''Rat'' \<or> head = ''Ser''
                 \<or> head = ''API'' then Some StatusNotOk
         else if head = ''Par'' then Some BodyNotJson
         else if head = ''Inv'' then Some FieldsMissing
         else None)"

section \<open>Properties of the selection engine\<close>

lemmas engine_defs = createInitialState_def createFreshOverrides_def wouldBaseModeSelect_def
  checkIsRowSelected_def resolvedIndices_def unknownIds_def additionalInclusions_def
  calculateSelectedCount_def runCommands_def selectRow_def deselectRow_def syncRow_def
  withRows_def startRows_def

subsection \<open>The membership query\<close>

text \<open>
  C1. For every state and every record \<open>(ident, i)\<close> the query consults the overrides in
  the order excluded ids (false), included ids (true), excluded indices (false),
  included indices (true); when none of them names the record it answers with the
  default of the base mode: false for \<open>NONE\<close>, true for \<open>ALL\<close>, \<open>i < rangeCount\<close> for
  \<open>RANGE\<close>, false for \<open>EXPLICIT\<close>.
\<close>

theorem isSelected_precedence:
  "(ident \<in> excludedIds (overrides s) \<longrightarrow> \<not> checkIsRowSelected s ident i) \<and>
   (ident \<notin> excludedIds (overrides s) \<and> ident \<in> includedIds (overrides s)
      \<longrightarrow> checkIsRowSelected s ident i) \<and>
   (ident \<notin> excludedIds (overrides s) \<and> ident \<notin> includedIds (overrides s)
      \<and> i \<in> excludedIndices (overrides s) \<longrightarrow> \<not> checkIsRowSelected s ident i) \<and>
   (ident \<notin> excludedIds (overrides s) \<and> ident \<notin> includedIds (overrides s)
      \<and> i \<notin> excludedIndices (overrides s) \<and> i \<in> includedIndices (overrides s)
      \<longrightarrow> checkIsRowSelected s ident i) \<and>
   (ident \<notin> excludedIds (overrides s) \<and> ident \<notin> includedIds (overrides s)
      \<and> i \<notin> excludedIndices (overrides s) \<and> i \<notin> includedIndices (overrides s)
      \<longrightarrow> checkIsRowSelected s ident i
            = (case mode s of NONE \<Rightarrow> False | ALL' \<Rightarrow> True
               | RANGE \<Rightarrow> i < rangeCount s | EXPLICIT \<Rightarrow> False))"
  by (simp add: checkIsRowSelected_def)

text \<open>
  After \<open>BULK_SELECT 5\<close> and a toggle of \<open>(a, 2)\<close> on ten records: \<open>a\<close> is excluded by
  id, \<open>(b, 3)\<close> and \<open>(c, 7)\<close> fall to the default of \<open>RANGE\<close>.
\<close>

theorem isSelected_precedence_witness:
  "\<not> checkIsRowSelected
       (runCommands (createInitialState 10) [BULK_SELECT 5, TOGGLE_ROW ''a'' 2]) ''a'' 2
   \<and> checkIsRowSelected
       (runCommands (createInitialState 10) [BULK_SELECT 5, TOGGLE_ROW ''a'' 2]) ''b'' 3
   \<and> \<not> checkIsRowSelected
       (runCommands (createInitialState 10) [BULK_SELECT 5, TOGGLE_ROW ''a'' 2]) ''c'' 7"
proof -
  let ?s = "runCommands (createInitialState 10) [BULK_SELECT 5, TOGGLE_ROW ''a'' 2]"
  have ov: "overrides ?s = \<lparr> includedIds = {}, excludedIds = {''a''},
                             includedIndices = {}, excludedIndices = {2} \<rparr>"
    and m: "mode ?s = RANGE" and r: "rangeCount ?s = 5"
    by (simp_all add: engine_defs)
  show ?thesis
    using isSelected_precedence [of "''a''" ?s 2] isSelected_precedence [of "''b''" ?s 3]
      isSelected_precedence [of "''c''" ?s 7]
    by (simp add: ov m r)
qed

subsection \<open>Toggling one row\<close>

text \<open>
  C2. For every state and every \<open>(ident, i)\<close>, \<open>TOGGLE_ROW\<close> flips the membership of the
  record. A selected record is removed from both included sets and is added to both
  excluded sets only when the base mode would select it; an unselected record is
  removed from both excluded sets and is added to both included sets only when the
  base mode would not select it. The pair is written to both caches in every case,
  the mode goes from \<open>NONE\<close> to \<open>EXPLICIT\<close> when the record becomes selected and is
  unchanged otherwise, and the range count and the total are unchanged.
\<close>

theorem toggle_row_effect:
  "checkIsRowSelected (selectionReducer s (TOGGLE_ROW ident i)) ident i
     = (\<not> checkIsRowSelected s ident i)
   \<and> (checkIsRowSelected s ident i \<longrightarrow>
        includedIds (overrides (selectionReducer s (TOGGLE_ROW ident i)))
          = includedIds (overrides s) - {ident}
      \<and> includedIndices (overrides (selectionReducer s (TOGGLE_ROW ident i)))
          = includedIndices (overrides s) - {i}
      \<and> excludedIds (overrides (selectionReducer s (TOGGLE_ROW ident i)))
          = (if wouldBaseModeSelect s i then insert ident (excludedIds (overrides s))
             else excludedIds (overrides s))
      \<and> excludedIndices (overrides (selectionReducer s (TOGGLE_ROW ident i)))
          = (if wouldBaseModeSelect s i then insert i (excludedIndices (overrides s))
             else excludedIndices (overrides s)))
   \<and> (\<not> checkIsRowSelected s ident i \<longrightarrow>
        excludedIds (overrides (selectionReducer s (TOGGLE_ROW ident i)))
          = excludedIds (overrides s) - {ident}
      \<and> excludedIndices (overrides (selectionReducer s (TOGGLE_ROW ident i)))
          = excludedIndices (overrides s) - {i}
      \<and> includedIds (overrides (selectionReducer s (TOGGLE_ROW ident i)))
          = (if wouldBaseModeSelect s i then includedIds (overrides s)
             else insert ident (includedIds (overrides s)))
      \<and> includedIndices (overrides (selectionReducer s (TOGGLE_ROW ident i)))
          = (if wouldBaseModeSelect s i then includedIndices (overrides s)
             else insert i (includedIndices (overrides s))))
   \<and> idToIndexCache (selectionReducer s (TOGGLE_ROW ident i))
       = (idToIndexCache s)(ident \<mapsto> i)
   \<and> indexToIdCache (selectionReducer s (TOGGLE_ROW ident i))
       = (indexToIdCache s)(i \<mapsto> ident)
   \<and> mode (selectionReducer s (TOGGLE_ROW ident i))
       = (if mode s = NONE \<and> \<not> checkIsRowSelected s ident i then EXPLICIT else mode s)
   \<and> rangeCount (selectionReducer s (TOGGLE_ROW ident i)) = rangeCount s
   \<and> totalRecords (selectionReducer s (TOGGLE_ROW ident i)) = totalRecords s"
  by (auto simp add: checkIsRowSelected_def wouldBaseModeSelect_def Let_def
      split: SelectionMode.splits)

text \<open>
  Under \<open>ALL\<close> the toggle of \<open>(7, 6)\<close> excludes the record by id; in the initial
  state the toggle of \<open>(a, 0)\<close> includes it and the mode becomes \<open>EXPLICIT\<close>.
\<close>

theorem toggle_row_effect_witness:
  "checkIsRowSelected (selectionReducer (createInitialState 10) SELECT_ALL) ''7'' 6
   \<and> \<not> checkIsRowSelected
         (runCommands (createInitialState 10) [SELECT_ALL, TOGGLE_ROW ''7'' 6]) ''7'' 6
   \<and> excludedIds (overrides
         (runCommands (createInitialState 10) [SELECT_ALL, TOGGLE_ROW ''7'' 6])) = {''7''}
   \<and> \<not> checkIsRowSelected (createInitialState 10) ''a'' 0
   \<and> includedIndices (overrides (selectionReducer (createInitialState 10) (TOGGLE_ROW ''a'' 0)))
       = {0}
   \<and> mode (selectionReducer (createInitialState 10) (TOGGLE_ROW ''a'' 0)) = EXPLICIT"
proof -
  let ?s = "selectionReducer (createInitialState 10) SELECT_ALL"
  have sel: "checkIsRowSelected ?s ''7'' 6"
    and base: "wouldBaseModeSelect ?s 6"
    and ex: "excludedIds (overrides ?s) = {}"
    by (simp_all add: engine_defs)
  have unsel: "\<not> checkIsRowSelected (createInitialState 10) ''a'' 0"
    and nobase: "\<not> wouldBaseModeSelect (createInitialState 10) 0"
    and inc: "includedIndices (overrides (createInitialState 10)) = {}"
    and m: "mode (createInitialState 10) = NONE"
    by (simp_all add: engine_defs)
  have run: "runCommands (createInitialState 10) [SELECT_ALL, TOGGLE_ROW ''7'' 6]
               = selectionReducer ?s (TOGGLE_ROW ''7'' 6)"
    by (simp add: runCommands_def)
  show ?thesis
    using toggle_row_effect [of ?s "''7''" 6]
      toggle_row_effect [of "createInitialState 10" "''a''" 0]
    unfolding run
    by (simp only: sel base ex unsel nobase inc m simp_thms if_True if_False)
qed

subsection \<open>Helper facts about the reducer\<close>

lemma foldl_preserves:
  assumes "P acc" and "\<And>a r. P a \<Longrightarrow> P (f a r)"
  shows "P (foldl f acc rows)"
  using assms(1) by (induction rows arbitrary: acc) (auto intro: assms(2))

lemma startRows_withRows [simp]: "startRows (withRows s m acc) = acc"
  by (cases acc) (simp add: startRows_def withRows_def)

lemma toggle_as_rows:
  "selectionReducer s (TOGGLE_ROW ident i) =
     withRows s (if mode s = NONE \<and> \<not> checkIsRowSelected s ident i then EXPLICIT else mode s)
       (if checkIsRowSelected s ident i then deselectRow s (startRows s) (ident, i)
        else selectRow s (startRows s) (ident, i))"
  by (simp add: withRows_def startRows_def selectRow_def deselectRow_def Let_def)

lemma overrides_withRows [simp]: "overrides (withRows s m acc) = fst acc"
  and mode_withRows [simp]: "mode (withRows s m acc) = m"
  and rangeCount_withRows [simp]: "rangeCount (withRows s m acc) = rangeCount s"
  and totalRecords_withRows [simp]: "totalRecords (withRows s m acc) = totalRecords s"
  by (cases acc; simp add: withRows_def)+

lemma fst_startRows [simp]: "fst (startRows s) = overrides s"
  by (simp add: startRows_def)

lemma checkIsRowSelected_base:
  "checkIsRowSelected s ident i =
     (if ident \<in> excludedIds (overrides s) then False
      else if ident \<in> includedIds (overrides s) then True
      else if i \<in> excludedIndices (overrides s) then False
      else if i \<in> includedIndices (overrides s) then True
      else wouldBaseModeSelect s i)"
  by (simp add: checkIsRowSelected_def wouldBaseModeSelect_def split: SelectionMode.splits)

lemma toggle_overrides:
  "overrides (selectionReducer s (TOGGLE_ROW ident i)) =
     (if checkIsRowSelected s ident i then
        \<lparr> includedIds = includedIds (overrides s) - {ident},
          excludedIds = (if wouldBaseModeSelect s i then insert ident (excludedIds (overrides s))
                         else excludedIds (overrides s)),
          includedIndices = includedIndices (overrides s) - {i},
          excludedIndices = (if wouldBaseModeSelect s i
                             then insert i (excludedIndices (overrides s))
                             else excludedIndices (overrides s)) \<rparr>
      else
        \<lparr> includedIds = (if wouldBaseModeSelect s i then includedIds (overrides s)
                         else insert ident (includedIds (overrides s))),
          excludedIds = excludedIds (overrides s) - {ident},
          includedIndices = (if wouldBaseModeSelect s i then includedIndices (overrides s)
                             else insert i (includedIndices (overrides s))),
          excludedIndices = excludedIndices (overrides s) - {i} \<rparr>)"
  by (simp add: Let_def)

lemma toggle_keeps_base:
  "wouldBaseModeSelect (selectionReducer s (TOGGLE_ROW ident i)) j = wouldBaseModeSelect s j"
  by (auto simp add: wouldBaseModeSelect_def Let_def split: SelectionMode.splits)

lemma toggle_flips:
  "checkIsRowSelected (selectionReducer s (TOGGLE_ROW ident i)) ident i
     = (\<not> checkIsRowSelected s ident i)"
  unfolding checkIsRowSelected_base [of "selectionReducer s (TOGGLE_ROW ident i)"]
    toggle_overrides toggle_keeps_base
  by (cases "wouldBaseModeSelect s i") (auto simp add: checkIsRowSelected_base)

lemma reachable_runCommands: "reachable s \<Longrightarrow> reachable (runCommands s actions)"
  unfolding runCommands_def
  by (induction actions arbitrary: s) (auto intro: reachable.step)

lemma reachable_from_initial: "reachable (runCommands (createInitialState n) actions)"
  by (rule reachable_runCommands) (rule reachable.initial)

lemma reachable_is_run:
  "reachable s \<Longrightarrow> \<exists>n actions. s = runCommands (createInitialState n) actions"
proof (induction rule: reachable.induct)
  case (initial n)
  have "createInitialState n = runCommands (createInitialState n) []"
    by (simp add: runCommands_def)
  then show ?case by blast
next
  case (step s a)
  then obtain n actions where "s = runCommands (createInitialState n) actions"
    by blast
  then have "selectionReducer s a = runCommands (createInitialState n) (actions @ [a])"
    by (simp add: runCommands_def)
  then show ?case by blast
qed

lemma count_nonneg: "0 \<le> calculateSelectedCount s"
  by (simp add: calculateSelectedCount_def)

subsection \<open>Invariants of the reachable states\<close>

lemma selectRow_agree: "overridesAgree acc \<Longrightarrow> overridesAgree (selectRow s acc row)"
  by (cases acc; cases row)
    (auto simp add: overridesAgree_def selectRow_def Let_def split: if_splits)

lemma deselectRow_agree: "overridesAgree acc \<Longrightarrow> overridesAgree (deselectRow s acc row)"
  by (cases acc; cases row)
    (auto simp add: overridesAgree_def deselectRow_def Let_def split: if_splits)

lemma reachable_agree: "reachable s \<Longrightarrow> overridesAgree (startRows s)"
proof (induction rule: reachable.induct)
  case (initial n)
  show ?case by (simp add: overridesAgree_def startRows_def createInitialState_def)
next
  case (step s a)
  show ?case
  proof (cases a)
    case (TOGGLE_ROW ident i)
    then show ?thesis using step.IH
      by (simp add: toggle_as_rows selectRow_agree deselectRow_agree
          del: selectionReducer.simps)
  next
    case (SELECT_ALL_PAGE rows)
    then show ?thesis using step.IH
      by (simp add: foldl_preserves [where P = overridesAgree] selectRow_agree)
  next
    case (DESELECT_ALL_PAGE rows)
    then show ?thesis using step.IH
      by (simp add: foldl_preserves [where P = overridesAgree] deselectRow_agree)
  next
    case (SYNC_PAGE_SELECTION rows selected)
    then show ?thesis using step.IH
      by (simp add: foldl_preserves [where P = overridesAgree] syncRow_def
          selectRow_agree deselectRow_agree)
  next
    case (BULK_SELECT n)
    then show ?thesis
      by (simp add: overridesAgree_def startRows_def createFreshOverrides_def Let_def)
  next
    case SELECT_ALL
    then show ?thesis
      by (simp add: overridesAgree_def startRows_def createFreshOverrides_def)
  next
    case CLEAR_SELECTION
    then show ?thesis
      by (simp add: overridesAgree_def startRows_def createFreshOverrides_def)
  next
    case (UPDATE_TOTAL_RECORDS n)
    then show ?thesis using step.IH
      by (simp add: startRows_def Let_def)
  qed
qed

lemma selectRow_known: "idsKnown acc \<Longrightarrow> idsKnown (selectRow s acc row)"
  by (cases acc; cases row)
    (auto simp add: idsKnown_def selectRow_def Let_def split: if_splits)

lemma deselectRow_known: "idsKnown acc \<Longrightarrow> idsKnown (deselectRow s acc row)"
  by (cases acc; cases row)
    (auto simp add: idsKnown_def deselectRow_def Let_def split: if_splits)

lemma known_step: "idsKnown (startRows s) \<Longrightarrow> idsKnown (startRows (selectionReducer s a))"
proof (cases a)
  case (TOGGLE_ROW ident i)
  assume "idsKnown (startRows s)"
  with TOGGLE_ROW show ?thesis
    by (simp add: toggle_as_rows selectRow_known deselectRow_known
        del: selectionReducer.simps)
next
  case (SELECT_ALL_PAGE rows)
  assume "idsKnown (startRows s)"
  with SELECT_ALL_PAGE show ?thesis
    by (simp add: foldl_preserves [where P = idsKnown] selectRow_known)
next
  case (DESELECT_ALL_PAGE rows)
  assume "idsKnown (startRows s)"
  with DESELECT_ALL_PAGE show ?thesis
    by (simp add: foldl_preserves [where P = idsKnown] deselectRow_known)
next
  case (SYNC_PAGE_SELECTION rows selected)
  assume "idsKnown (startRows s)"
  with SYNC_PAGE_SELECTION show ?thesis
    by (simp add: foldl_preserves [where P = idsKnown] syncRow_def
        selectRow_known deselectRow_known)
next
  case (BULK_SELECT n)
  then show ?thesis
    by (simp add: idsKnown_def startRows_def createFreshOverrides_def Let_def)
next
  case SELECT_ALL
  then show ?thesis
    by (simp add: idsKnown_def startRows_def createFreshOverrides_def)
next
  case CLEAR_SELECTION
  then show ?thesis
    by (simp add: idsKnown_def startRows_def createFreshOverrides_def)
next
  case (UPDATE_TOTAL_RECORDS n)
  assume "idsKnown (startRows s)"
  with UPDATE_TOTAL_RECORDS show ?thesis
    by (simp add: startRows_def Let_def)
qed

lemma reachable_known: "reachable s \<Longrightarrow> idsKnown (startRows s)"
  by (induction rule: reachable.induct)
    (simp_all add: known_step, simp add: idsKnown_def startRows_def createInitialState_def)

lemma selectRow_excluded:
  "excludedIds (fst (selectRow s acc row)) \<subseteq> excludedIds (fst acc)
   \<and> excludedIndices (fst (selectRow s acc row)) \<subseteq> excludedIndices (fst acc)"
  by (cases acc; cases row) (auto simp add: selectRow_def Let_def)

lemma selectRow_included:
  "mode s = ALL' \<Longrightarrow>
   includedIds (fst (selectRow s acc row)) \<subseteq> includedIds (fst acc)
   \<and> includedIndices (fst (selectRow s acc row)) \<subseteq> includedIndices (fst acc)"
  by (cases acc; cases row) (auto simp add: selectRow_def wouldBaseModeSelect_def Let_def)

lemma deselectRow_included:
  "includedIds (fst (deselectRow s acc row)) \<subseteq> includedIds (fst acc)
   \<and> includedIndices (fst (deselectRow s acc row)) \<subseteq> includedIndices (fst acc)"
  by (cases acc; cases row) (auto simp add: deselectRow_def Let_def)

lemma deselectRow_excluded:
  "mode s = NONE \<or> mode s = EXPLICIT \<Longrightarrow>
   excludedIds (fst (deselectRow s acc row)) \<subseteq> excludedIds (fst acc)
   \<and> excludedIndices (fst (deselectRow s acc row)) \<subseteq> excludedIndices (fst acc)"
  by (cases acc; cases row) (auto simp add: deselectRow_def wouldBaseModeSelect_def Let_def)

lemma syncRow_excluded:
  "mode s = NONE \<or> mode s = EXPLICIT \<Longrightarrow>
   excludedIds (fst (syncRow s b acc row)) \<subseteq> excludedIds (fst acc)
   \<and> excludedIndices (fst (syncRow s b acc row)) \<subseteq> excludedIndices (fst acc)"
  by (simp add: syncRow_def selectRow_excluded deselectRow_excluded)

lemma syncRow_included:
  "mode s = ALL' \<or> \<not> b \<Longrightarrow>
   includedIds (fst (syncRow s b acc row)) \<subseteq> includedIds (fst acc)
   \<and> includedIndices (fst (syncRow s b acc row)) \<subseteq> includedIndices (fst acc)"
  by (auto simp add: syncRow_def dest: selectRow_included [THEN conjunct1, THEN subsetD]
      selectRow_included [THEN conjunct2, THEN subsetD]
      deselectRow_included [THEN conjunct1, THEN subsetD]
      deselectRow_included [THEN conjunct2, THEN subsetD])

lemma foldl_excluded_empty:
  fixes f :: "RowAcc \<Rightarrow> 'r \<Rightarrow> RowAcc"
  assumes "\<And>a r. excludedIds (fst (f a r)) \<subseteq> excludedIds (fst a)
                  \<and> excludedIndices (fst (f a r)) \<subseteq> excludedIndices (fst a)"
    and "excludedIds (fst acc) = {}" and "excludedIndices (fst acc) = {}"
  shows "excludedIds (fst (foldl f acc rows)) = {}
       \<and> excludedIndices (fst (foldl f acc rows)) = {}"
proof (rule foldl_preserves
    [where P = "\<lambda>a. excludedIds (fst a) = {} \<and> excludedIndices (fst a) = {}"])
  show "excludedIds (fst acc) = {} \<and> excludedIndices (fst acc) = {}"
    using assms(2,3) by simp
next
  fix a :: RowAcc and r :: 'r
  assume "excludedIds (fst a) = {} \<and> excludedIndices (fst a) = {}"
  then show "excludedIds (fst (f a r)) = {} \<and> excludedIndices (fst (f a r)) = {}"
    using assms(1) [of a r] by auto
qed

lemma foldl_included_empty:
  fixes f :: "RowAcc \<Rightarrow> 'r \<Rightarrow> RowAcc"
  assumes "\<And>a r. includedIds (fst (f a r)) \<subseteq> includedIds (fst a)
                  \<and> includedIndices (fst (f a r)) \<subseteq> includedIndices (fst a)"
    and "includedIds (fst acc) = {}" and "includedIndices (fst acc) = {}"
  shows "includedIds (fst (foldl f acc rows)) = {}
       \<and> includedIndices (fst (foldl f acc rows)) = {}"
proof (rule foldl_preserves
    [where P = "\<lambda>a. includedIds (fst a) = {} \<and> includedIndices (fst a) = {}"])
  show "includedIds (fst acc) = {} \<and> includedIndices (fst acc) = {}"
    using assms(2,3) by simp
next
  fix a :: RowAcc and r :: 'r
  assume "includedIds (fst a) = {} \<and> includedIndices (fst a) = {}"
  then show "includedIds (fst (f a r)) = {} \<and> includedIndices (fst (f a r)) = {}"
    using assms(1) [of a r] by auto
qed

lemma shape_step: "modeShape s \<Longrightarrow> modeShape (selectionReducer s a)"
proof (cases a)
  case (TOGGLE_ROW ident i)
  assume "modeShape s"
  with TOGGLE_ROW show ?thesis
    by (auto simp add: modeShape_def checkIsRowSelected_def wouldBaseModeSelect_def Let_def
        split: SelectionMode.splits)
next
  case (SELECT_ALL_PAGE rows)
  assume sh: "modeShape s"
  have ex: "mode s = NONE \<or> mode s = EXPLICIT \<Longrightarrow>
      excludedIds (fst (foldl (selectRow s) (startRows s) rows)) = {}
      \<and> excludedIndices (fst (foldl (selectRow s) (startRows s) rows)) = {}"
    using sh by (intro foldl_excluded_empty selectRow_excluded) (auto simp add: modeShape_def)
  have inc: "mode s = ALL' \<Longrightarrow>
      includedIds (fst (foldl (selectRow s) (startRows s) rows)) = {}
      \<and> includedIndices (fst (foldl (selectRow s) (startRows s) rows)) = {}"
    using sh by (intro foldl_included_empty selectRow_included) (auto simp add: modeShape_def)
  show ?thesis using ex inc by (auto simp add: SELECT_ALL_PAGE modeShape_def)
next
  case (DESELECT_ALL_PAGE rows)
  assume sh: "modeShape s"
  have ex: "mode s = NONE \<or> mode s = EXPLICIT \<Longrightarrow>
      excludedIds (fst (foldl (deselectRow s) (startRows s) rows)) = {}
      \<and> excludedIndices (fst (foldl (deselectRow s) (startRows s) rows)) = {}"
    using sh by (intro foldl_excluded_empty deselectRow_excluded) (auto simp add: modeShape_def)
  have inc: "mode s = ALL' \<or> mode s = NONE \<Longrightarrow>
      includedIds (fst (foldl (deselectRow s) (startRows s) rows)) = {}
      \<and> includedIndices (fst (foldl (deselectRow s) (startRows s) rows)) = {}"
    using sh by (intro foldl_included_empty deselectRow_included) (auto simp add: modeShape_def)
  show ?thesis using ex inc sh by (auto simp add: DESELECT_ALL_PAGE modeShape_def)
next
  case (SYNC_PAGE_SELECTION rows selected)
  assume sh: "modeShape s"
  have ex: "mode s = NONE \<or> mode s = EXPLICIT \<Longrightarrow>
      excludedIds (fst (foldl (syncRow s selected) (startRows s) rows)) = {}
      \<and> excludedIndices (fst (foldl (syncRow s selected) (startRows s) rows)) = {}"
    using sh by (intro foldl_excluded_empty syncRow_excluded) (auto simp add: modeShape_def)
  have inc: "mode s = ALL' \<or> (mode s = NONE \<and> \<not> selected) \<Longrightarrow>
      includedIds (fst (foldl (syncRow s selected) (startRows s) rows)) = {}
      \<and> includedIndices (fst (foldl (syncRow s selected) (startRows s) rows)) = {}"
    using sh by (intro foldl_included_empty syncRow_included) (auto simp add: modeShape_def)
  show ?thesis using ex inc sh by (auto simp add: SYNC_PAGE_SELECTION modeShape_def)
next
  case (BULK_SELECT n)
  then show ?thesis
    by (simp add: modeShape_def createFreshOverrides_def Let_def)
next
  case SELECT_ALL
  then show ?thesis
    by (simp add: modeShape_def createFreshOverrides_def)
next
  case CLEAR_SELECTION
  then show ?thesis
    by (simp add: modeShape_def createFreshOverrides_def)
next
  case (UPDATE_TOTAL_RECORDS n)
  assume "modeShape s"
  with UPDATE_TOTAL_RECORDS show ?thesis
    by (simp add: modeShape_def Let_def)
qed

lemma reachable_shape: "reachable s \<Longrightarrow> modeShape s"
  by (induction rule: reachable.induct)
    (simp_all add: shape_step, simp add: modeShape_def createInitialState_def)

lemma selectRow_paired:
  "mode s \<noteq> RANGE \<Longrightarrow> pairedFor s acc \<Longrightarrow> pairedFor s (selectRow s acc row)"
  by (cases acc; cases row; cases "mode s")
    (auto simp add: pairedFor_def pairedOverrides_def selectRow_def wouldBaseModeSelect_def
      Let_def split: if_splits)

lemma deselectRow_paired:
  "mode s \<noteq> RANGE \<Longrightarrow> pairedFor s acc \<Longrightarrow> pairedFor s (deselectRow s acc row)"
  by (cases acc; cases row; cases "mode s")
    (auto simp add: pairedFor_def pairedOverrides_def deselectRow_def wouldBaseModeSelect_def
      Let_def split: if_splits)

lemma pairedFor_start:
  "modeShape s \<Longrightarrow> pairedOverrides (startRows s) \<Longrightarrow> pairedFor s (startRows s)"
  by (auto simp add: pairedFor_def modeShape_def)

lemma paired_step:
  assumes sh: "modeShape s"
    and inv: "mode s \<noteq> RANGE \<longrightarrow> pairedOverrides (startRows s)"
  shows "mode (selectionReducer s a) \<noteq> RANGE
           \<longrightarrow> pairedOverrides (startRows (selectionReducer s a))"
proof (cases "mode s = RANGE")
  case True
  then show ?thesis
    by (cases a)
      (auto simp add: Let_def pairedOverrides_def startRows_def createFreshOverrides_def)
next
  case False
  then have start: "pairedFor s (startRows s)"
    using sh inv by (simp add: pairedFor_start)
  show ?thesis
  proof (cases a)
    case (TOGGLE_ROW ident i)
    have "pairedFor s (if checkIsRowSelected s ident i
                        then deselectRow s (startRows s) (ident, i)
                        else selectRow s (startRows s) (ident, i))"
      using False start by (simp add: selectRow_paired deselectRow_paired)
    then show ?thesis unfolding TOGGLE_ROW toggle_as_rows
      by (simp add: pairedFor_def)
  next
    case (SELECT_ALL_PAGE rows)
    have "pairedFor s (foldl (selectRow s) (startRows s) rows)"
      using start False
      by (intro foldl_preserves [where P = "pairedFor s"]) (simp_all add: selectRow_paired)
    then show ?thesis by (simp add: SELECT_ALL_PAGE pairedFor_def)
  next
    case (DESELECT_ALL_PAGE rows)
    have "pairedFor s (foldl (deselectRow s) (startRows s) rows)"
      using start False
      by (intro foldl_preserves [where P = "pairedFor s"]) (simp_all add: deselectRow_paired)
    then show ?thesis by (simp add: DESELECT_ALL_PAGE pairedFor_def)
  next
    case (SYNC_PAGE_SELECTION rows selected)
    have "pairedFor s (foldl (syncRow s selected) (startRows s) rows)"
      using start False
      by (intro foldl_preserves [where P = "pairedFor s"])
        (simp_all add: syncRow_def selectRow_paired deselectRow_paired)
    then show ?thesis by (simp add: SYNC_PAGE_SELECTION pairedFor_def)
  next
    case (BULK_SELECT n)
    then show ?thesis
      by (simp add: pairedOverrides_def startRows_def createFreshOverrides_def Let_def)
  next
    case SELECT_ALL
    then show ?thesis
      by (simp add: pairedOverrides_def startRows_def createFreshOverrides_def)
  next
    case CLEAR_SELECTION
    then show ?thesis
      by (simp add: pairedOverrides_def startRows_def createFreshOverrides_def)
  next
    case (UPDATE_TOTAL_RECORDS n)
    then show ?thesis using inv False
      by (simp add: startRows_def Let_def)
  qed
qed

lemma reachable_paired:
  "reachable s \<Longrightarrow> mode s \<noteq> RANGE \<longrightarrow> pairedOverrides (startRows s)"
proof (induction rule: reachable.induct)
  case (initial n)
  show ?case by (simp add: pairedOverrides_def startRows_def createInitialState_def)
next
  case (step s a)
  show ?case using reachable_shape [OF step.hyps] step.IH by (rule paired_step)
qed


subsection \<open>Bulk selection\<close>




subsection \<open>A new total\<close>

text \<open>
  C8. For every state and every new total, \<open>UPDATE_TOTAL_RECORDS\<close> stores the new
  total and, exactly when the mode is \<open>RANGE\<close>, replaces the range count by its
  minimum with the new total; the mode, the overrides and both caches stay as they
  are. From a total of 1000, \<open>BULK_SELECT 50\<close> selects 50 records, and the new total
  30 after it leaves mode \<open>RANGE\<close> with range count 30 and 30 selected records.
\<close>

theorem update_total_frame:
  "totalRecords (selectionReducer s (UPDATE_TOTAL_RECORDS n)) = n
   \<and> rangeCount (selectionReducer s (UPDATE_TOTAL_RECORDS n))
       = (if mode s = RANGE then min (rangeCount s) n else rangeCount s)
   \<and> mode (selectionReducer s (UPDATE_TOTAL_RECORDS n)) = mode s
   \<and> overrides (selectionReducer s (UPDATE_TOTAL_RECORDS n)) = overrides s
   \<and> indexToIdCache (selectionReducer s (UPDATE_TOTAL_RECORDS n)) = indexToIdCache s
   \<and> idToIndexCache (selectionReducer s (UPDATE_TOTAL_RECORDS n)) = idToIndexCache s
   \<and> (totalRecords s = 1000 \<longrightarrow>
        calculateSelectedCount (selectionReducer s (BULK_SELECT 50)) = 50
      \<and> mode (runCommands s [BULK_SELECT 50, UPDATE_TOTAL_RECORDS 30]) = RANGE
      \<and> rangeCount (runCommands s [BULK_SELECT 50, UPDATE_TOTAL_RECORDS 30]) = 30
      \<and> calculateSelectedCount (runCommands s [BULK_SELECT 50, UPDATE_TOTAL_RECORDS 30]) = 30)"
  by (simp add: engine_defs)

text \<open>The scenario from the state created with 1000 records.\<close>

theorem update_total_frame_witness:
  "totalRecords (createInitialState 1000) = 1000
   \<and> calculateSelectedCount (selectionReducer (createInitialState 1000) (BULK_SELECT 50)) = 50
   \<and> mode (runCommands (createInitialState 1000) [BULK_SELECT 50, UPDATE_TOTAL_RECORDS 30])
       = RANGE
   \<and> rangeCount (runCommands (createInitialState 1000) [BULK_SELECT 50, UPDATE_TOTAL_RECORDS 30])
       = 30
   \<and> calculateSelectedCount
        (runCommands (createInitialState 1000) [BULK_SELECT 50, UPDATE_TOTAL_RECORDS 30]) = 30"
proof -
  have t: "totalRecords (createInitialState 1000) = 1000"
    by (simp add: createInitialState_def)
  show ?thesis
    using update_total_frame [of "createInitialState 1000" 30] by (simp add: t)
qed

subsection \<open>The mode \<open>NONE\<close>\<close>

text \<open>
  C10. In every state reachable from an initial state through the commands, mode
  \<open>NONE\<close> implies that the four override sets are empty and that the range count is
  \<open>0\<close>.
\<close>

theorem none_is_pristine:
  "reachable s \<Longrightarrow> mode s = NONE \<Longrightarrow>
   includedIds (overrides s) = {} \<and> excludedIds (overrides s) = {}
   \<and> includedIndices (overrides s) = {} \<and> excludedIndices (overrides s) = {}
   \<and> rangeCount s = 0"
  using reachable_shape [of s] by (simp add: modeShape_def)

text \<open>A toggle followed by \<open>BULK_SELECT 0\<close> is back in \<open>NONE\<close> without overrides.\<close>

theorem none_is_pristine_witness:
  "reachable (runCommands (createInitialState 10) [TOGGLE_ROW ''a'' 0, BULK_SELECT 0])
   \<and> mode (runCommands (createInitialState 10) [TOGGLE_ROW ''a'' 0, BULK_SELECT 0]) = NONE
   \<and> includedIds (overrides
        (runCommands (createInitialState 10) [TOGGLE_ROW ''a'' 0, BULK_SELECT 0])) = {}
   \<and> rangeCount (runCommands (createInitialState 10) [TOGGLE_ROW ''a'' 0, BULK_SELECT 0]) = 0"
proof -
  let ?s = "runCommands (createInitialState 10) [TOGGLE_ROW ''a'' 0, BULK_SELECT 0]"
  have r: "reachable ?s" by (rule reachable_from_initial)
  have m: "mode ?s = NONE" by (simp add: engine_defs)
  show ?thesis using none_is_pristine [OF r m] r m by simp
qed

subsection \<open>Included against excluded\<close>

text \<open>
  C4. In every reachable state no id is in \<open>includedIds\<close> and \<open>excludedIds\<close> at once,
  no index is in \<open>includedIndices\<close> and \<open>excludedIndices\<close> at once, and for a pair
  \<open>(ident, i)\<close> that the identity cache holds together (the id maps to the index and
  the index maps to the id) the id is not included while the index is excluded, nor
  the id excluded while the index is included.
\<close>

theorem overrides_never_conflict:
  "reachable s \<Longrightarrow>
   \<not> (ident \<in> includedIds (overrides s) \<and> ident \<in> excludedIds (overrides s))
   \<and> \<not> (i \<in> includedIndices (overrides s) \<and> i \<in> excludedIndices (overrides s))
   \<and> (idToIndexCache s ident = Some i \<and> indexToIdCache s i = Some ident \<longrightarrow>
        \<not> (ident \<in> includedIds (overrides s) \<and> i \<in> excludedIndices (overrides s))
      \<and> \<not> (ident \<in> excludedIds (overrides s) \<and> i \<in> includedIndices (overrides s)))"
  using reachable_agree [of s] by (auto simp add: overridesAgree_def startRows_def)

text \<open>
  After \<open>BULK_SELECT 5\<close> and a toggle of \<open>(a, 7)\<close> the cache holds the pair and \<open>a\<close> is
  included; neither its id nor its index is excluded.
\<close>

theorem overrides_never_conflict_witness:
  "reachable (runCommands (createInitialState 10) [BULK_SELECT 5, TOGGLE_ROW ''a'' 7])
   \<and> idToIndexCache
        (runCommands (createInitialState 10) [BULK_SELECT 5, TOGGLE_ROW ''a'' 7]) ''a'' = Some 7
   \<and> indexToIdCache
        (runCommands (createInitialState 10) [BULK_SELECT 5, TOGGLE_ROW ''a'' 7]) 7 = Some ''a''
   \<and> ''a'' \<in> includedIds (overrides
        (runCommands (createInitialState 10) [BULK_SELECT 5, TOGGLE_ROW ''a'' 7]))
   \<and> 7 \<notin> excludedIndices (overrides
        (runCommands (createInitialState 10) [BULK_SELECT 5, TOGGLE_ROW ''a'' 7]))
   \<and> ''a'' \<notin> excludedIds (overrides
        (runCommands (createInitialState 10) [BULK_SELECT 5, TOGGLE_ROW ''a'' 7]))"
proof -
  let ?s = "runCommands (createInitialState 10) [BULK_SELECT 5, TOGGLE_ROW ''a'' 7]"
  have r: "reachable ?s" by (rule reachable_from_initial)
  have c1: "idToIndexCache ?s ''a'' = Some 7" and c2: "indexToIdCache ?s 7 = Some ''a''"
    and inc: "''a'' \<in> includedIds (overrides ?s)"
    by (simp_all add: engine_defs)
  show ?thesis using overrides_never_conflict [OF r, of "''a''" 7] r c1 c2 inc by simp
qed

subsection \<open>The number of selected records\<close>

text \<open>
  C3, as the code has it. In every reachable state the count is at least \<open>0\<close>. It is
  at most \<open>totalRecords\<close> when the total is not negative and, under \<open>EXPLICIT\<close>,
  every included index (given or cached for an included id) lies in
  \<open>[0, totalRecords)\<close>, and, under \<open>RANGE\<close>, there are no included overrides.
\<close>

theorem count_bounds:
  "reachable s \<Longrightarrow>
   0 \<le> calculateSelectedCount s
   \<and> (0 \<le> totalRecords s
        \<and> (mode s = EXPLICIT \<longrightarrow>
              includedIndices (overrides s) \<union> resolvedIndices s (includedIds (overrides s))
                \<subseteq> {0 ..< totalRecords s})
        \<and> (mode s = RANGE \<longrightarrow>
              includedIds (overrides s) = {} \<and> includedIndices (overrides s) = {})
      \<longrightarrow> calculateSelectedCount s \<le> totalRecords s)"
proof (intro conjI impI)
  show "0 \<le> calculateSelectedCount s" by (rule count_nonneg)
next
  assume r: "reachable s"
  assume h: "0 \<le> totalRecords s
        \<and> (mode s = EXPLICIT \<longrightarrow>
              includedIndices (overrides s) \<union> resolvedIndices s (includedIds (overrides s))
                \<subseteq> {0 ..< totalRecords s})
        \<and> (mode s = RANGE \<longrightarrow>
              includedIds (overrides s) = {} \<and> includedIndices (overrides s) = {})"
  have shape: "modeShape s" using r by (rule reachable_shape)
  have known: "idsKnown (startRows s)" using r by (rule reachable_known)
  show "calculateSelectedCount s \<le> totalRecords s"
  proof (cases "mode s")
    case NONE
    then show ?thesis using shape h
      by (simp add: calculateSelectedCount_def modeShape_def resolvedIndices_def unknownIds_def)
  next
    case EXPLICIT
    have unk: "unknownIds s (includedIds (overrides s)) = {}"
      using known by (auto simp add: idsKnown_def startRows_def unknownIds_def)
    have "card (includedIndices (overrides s) \<union> resolvedIndices s (includedIds (overrides s)))
            \<le> card {0 ..< totalRecords s}"
      using h EXPLICIT by (intro card_mono) auto
    then have "int (card (includedIndices (overrides s)
                   \<union> resolvedIndices s (includedIds (overrides s)))) \<le> totalRecords s"
      using h by (simp add: le_nat_iff)
    then show ?thesis using EXPLICIT unk
      by (simp add: calculateSelectedCount_def)
  next
    case RANGE
    then show ?thesis using h
      by (simp add: calculateSelectedCount_def additionalInclusions_def)
  next
    case ALL'
    then show ?thesis using shape h
      by (simp add: calculateSelectedCount_def additionalInclusions_def modeShape_def)
  qed
qed

text \<open>Two toggled rows out of ten.\<close>

theorem count_bounds_witness:
  "reachable (runCommands (createInitialState 10) [TOGGLE_ROW ''a'' 0, TOGGLE_ROW ''b'' 1])
   \<and> mode (runCommands (createInitialState 10) [TOGGLE_ROW ''a'' 0, TOGGLE_ROW ''b'' 1])
       = EXPLICIT
   \<and> calculateSelectedCount
        (runCommands (createInitialState 10) [TOGGLE_ROW ''a'' 0, TOGGLE_ROW ''b'' 1]) = 2
   \<and> calculateSelectedCount
        (runCommands (createInitialState 10) [TOGGLE_ROW ''a'' 0, TOGGLE_ROW ''b'' 1])
       \<le> totalRecords
        (runCommands (createInitialState 10) [TOGGLE_ROW ''a'' 0, TOGGLE_ROW ''b'' 1])"
proof -
  let ?s = "runCommands (createInitialState 10) [TOGGLE_ROW ''a'' 0, TOGGLE_ROW ''b'' 1]"
  have r: "reachable ?s" by (rule reachable_from_initial)
  have m: "mode ?s = EXPLICIT" by code_simp
  have t: "0 \<le> totalRecords ?s" by code_simp
  have inside: "includedIndices (overrides ?s) \<union> resolvedIndices ?s (includedIds (overrides ?s))
          \<subseteq> {0 ..< totalRecords ?s}" by code_simp
  have c: "calculateSelectedCount ?s = 2" by code_simp
  show ?thesis using count_bounds [OF r] m t inside c r by simp
qed

text \<open>
  C3 as stated fails: \<open>UPDATE_TOTAL_RECORDS\<close> leaves the overrides as they are, so two
  rows selected by hand are still counted after the total went down to one.
\<close>

theorem count_exceeds_total:
  "reachable (runCommands (createInitialState 2)
      [TOGGLE_ROW ''a'' 0, TOGGLE_ROW ''b'' 1, UPDATE_TOTAL_RECORDS 1])
   \<and> \<not> calculateSelectedCount (runCommands (createInitialState 2)
          [TOGGLE_ROW ''a'' 0, TOGGLE_ROW ''b'' 1, UPDATE_TOTAL_RECORDS 1])
        \<le> totalRecords (runCommands (createInitialState 2)
          [TOGGLE_ROW ''a'' 0, TOGGLE_ROW ''b'' 1, UPDATE_TOTAL_RECORDS 1])"
proof (intro conjI)
  show "reachable (runCommands (createInitialState 2)
      [TOGGLE_ROW ''a'' 0, TOGGLE_ROW ''b'' 1, UPDATE_TOTAL_RECORDS 1])"
    by (rule reachable_from_initial)
qed code_simp

text \<open>
  Under \<open>RANGE\<close> a row toggled on beyond the range is counted twice, once for its
  index and once for its id, where the count under \<open>EXPLICIT\<close> merges the two: six
  records, the first five selected in bulk and the sixth by hand, count as seven.
\<close>

lemma range_inclusion_counted_twice:
  "calculateSelectedCount
     (runCommands (createInitialState 6) [BULK_SELECT 5, TOGGLE_ROW ''x'' 5]) = 7"
  by code_simp

subsection \<open>Toggling twice\<close>

text \<open>
  C5, as the code has it. For every state and every \<open>(ident, i)\<close>, two toggles in a
  row give back the membership of the record. They give back the four override sets
  exactly when the overrides of the record were canonical before: id and index
  overridden alike, not included and excluded at once, and no override that repeats
  the default of the base mode.
\<close>

theorem double_toggle:
  "checkIsRowSelected
     (selectionReducer (selectionReducer s (TOGGLE_ROW ident i)) (TOGGLE_ROW ident i)) ident i
     = checkIsRowSelected s ident i
   \<and> ((includedIds (overrides
          (selectionReducer (selectionReducer s (TOGGLE_ROW ident i)) (TOGGLE_ROW ident i)))
          = includedIds (overrides s)
       \<and> excludedIds (overrides
          (selectionReducer (selectionReducer s (TOGGLE_ROW ident i)) (TOGGLE_ROW ident i)))
          = excludedIds (overrides s)
       \<and> includedIndices (overrides
          (selectionReducer (selectionReducer s (TOGGLE_ROW ident i)) (TOGGLE_ROW ident i)))
          = includedIndices (overrides s)
       \<and> excludedIndices (overrides
          (selectionReducer (selectionReducer s (TOGGLE_ROW ident i)) (TOGGLE_ROW ident i)))
          = excludedIndices (overrides s))
      \<longleftrightarrow> rowCanonical s ident i)"
proof -
  let ?s1 = "selectionReducer s (TOGGLE_ROW ident i)"
  let ?s2 = "selectionReducer ?s1 (TOGGLE_ROW ident i)"
  have b1: "wouldBaseModeSelect ?s1 i = wouldBaseModeSelect s i"
    by (rule toggle_keeps_base)
  have c1: "checkIsRowSelected ?s1 ident i = (\<not> checkIsRowSelected s ident i)"
    by (rule toggle_flips)
  have c2: "checkIsRowSelected ?s2 ident i = checkIsRowSelected s ident i"
    by (simp only: toggle_flips [of ?s1] c1 simp_thms)
  have sets: "(includedIds (overrides ?s2) = includedIds (overrides s)
       \<and> excludedIds (overrides ?s2) = excludedIds (overrides s)
       \<and> includedIndices (overrides ?s2) = includedIndices (overrides s)
       \<and> excludedIndices (overrides ?s2) = excludedIndices (overrides s))
      \<longleftrightarrow> rowCanonical s ident i"
  proof (cases "checkIsRowSelected s ident i")
    case True
    then have n1: "\<not> checkIsRowSelected ?s1 ident i" using c1 by simp
    show ?thesis
      using True
      unfolding toggle_overrides [of ?s1] toggle_overrides [of s] b1 rowCanonical_def
        if_P [OF True] if_not_P [OF n1]
      by (cases "wouldBaseModeSelect s i") (auto simp add: checkIsRowSelected_base)
  next
    case False
    then have y1: "checkIsRowSelected ?s1 ident i" using c1 by simp
    show ?thesis
      using False
      unfolding toggle_overrides [of ?s1] toggle_overrides [of s] b1 rowCanonical_def
        if_P [OF y1] if_not_P [OF False]
      by (cases "wouldBaseModeSelect s i") (auto simp add: checkIsRowSelected_base)
  qed
  show ?thesis using c2 sets by (rule conjI)
qed

text \<open>Under \<open>ALL\<close> the record \<open>(7, 6)\<close> has no override; two toggles leave none.\<close>

theorem double_toggle_witness:
  "rowCanonical (selectionReducer (createInitialState 10) SELECT_ALL) ''7'' 6
   \<and> checkIsRowSelected (selectionReducer (createInitialState 10) SELECT_ALL) ''7'' 6
   \<and> checkIsRowSelected
        (runCommands (createInitialState 10)
           [SELECT_ALL, TOGGLE_ROW ''7'' 6, TOGGLE_ROW ''7'' 6]) ''7'' 6
   \<and> excludedIds (overrides
        (runCommands (createInitialState 10)
           [SELECT_ALL, TOGGLE_ROW ''7'' 6, TOGGLE_ROW ''7'' 6])) = {}"
proof -
  let ?s = "selectionReducer (createInitialState 10) SELECT_ALL"
  have can: "rowCanonical ?s ''7'' 6" by (simp add: rowCanonical_def engine_defs)
  have sel: "checkIsRowSelected ?s ''7'' 6" by (simp add: engine_defs)
  have ex: "excludedIds (overrides ?s) = {}" by (simp add: engine_defs)
  have run: "runCommands (createInitialState 10)
               [SELECT_ALL, TOGGLE_ROW ''7'' 6, TOGGLE_ROW ''7'' 6]
             = selectionReducer (selectionReducer ?s (TOGGLE_ROW ''7'' 6)) (TOGGLE_ROW ''7'' 6)"
    by (simp add: runCommands_def)
  show ?thesis using double_toggle [of ?s "''7''" 6] can sel ex unfolding run by simp
qed

text \<open>
  C5 as stated fails in a reachable state: an exclusion made inside a range stays when
  a smaller total clamps the range below it, and two toggles of that record drop it.
\<close>

theorem double_toggle_drops_override:
  "reachable (runCommands (createInitialState 10)
      [BULK_SELECT 5, TOGGLE_ROW ''a'' 2, UPDATE_TOTAL_RECORDS 1, UPDATE_TOTAL_RECORDS 10])
   \<and> excludedIds (overrides
        (selectionReducer
          (selectionReducer
            (runCommands (createInitialState 10)
              [BULK_SELECT 5, TOGGLE_ROW ''a'' 2, UPDATE_TOTAL_RECORDS 1,
               UPDATE_TOTAL_RECORDS 10])
            (TOGGLE_ROW ''a'' 2))
          (TOGGLE_ROW ''a'' 2)))
     \<noteq> excludedIds (overrides
        (runCommands (createInitialState 10)
          [BULK_SELECT 5, TOGGLE_ROW ''a'' 2, UPDATE_TOTAL_RECORDS 1,
           UPDATE_TOTAL_RECORDS 10]))"
proof (intro conjI)
  show "reachable (runCommands (createInitialState 10)
      [BULK_SELECT 5, TOGGLE_ROW ''a'' 2, UPDATE_TOTAL_RECORDS 1, UPDATE_TOTAL_RECORDS 10])"
    by (rule reachable_from_initial)
qed (simp add: engine_defs)

subsection \<open>The descriptor\<close>

text \<open>
  C7 fails on the code. After \<open>BULK_SELECT 5\<close> a toggle of \<open>(a, 7)\<close> selects a record
  beyond the range through the included overrides; the descriptor of mode \<open>RANGE\<close>
  carries the range count and the excluded overrides only, so a reader of the
  descriptor takes \<open>a\<close> for unselected while the query on the state selects it.
\<close>

theorem range_descriptor_drops_inclusion:
  "reachable (runCommands (createInitialState 10) [BULK_SELECT 5, TOGGLE_ROW ''a'' 7])
   \<and> idToIndexCache
        (runCommands (createInitialState 10) [BULK_SELECT 5, TOGGLE_ROW ''a'' 7]) ''a'' = Some 7
   \<and> indexToIdCache
        (runCommands (createInitialState 10) [BULK_SELECT 5, TOGGLE_ROW ''a'' 7]) 7 = Some ''a''
   \<and> checkIsRowSelected
        (runCommands (createInitialState 10) [BULK_SELECT 5, TOGGLE_ROW ''a'' 7]) ''a'' 7
   \<and> getSelectionDescriptor
        (runCommands (createInitialState 10) [BULK_SELECT 5, TOGGLE_ROW ''a'' 7])
       = \<lparr> d_mode = RANGE, d_rangeCount = Some 5, d_includedIds = None,
           d_excludedIds = None, d_excludedIndices = None \<rparr>
   \<and> \<not> descriptorSelects
          (getSelectionDescriptor
             (runCommands (createInitialState 10) [BULK_SELECT 5, TOGGLE_ROW ''a'' 7])) ''a'' 7"
proof (intro conjI)
  show "reachable (runCommands (createInitialState 10) [BULK_SELECT 5, TOGGLE_ROW ''a'' 7])"
    by (rule reachable_from_initial)
qed (simp_all add: engine_defs getSelectionDescriptor_def descriptorSelects_def
    fieldOrEmpty_def)

text \<open>
  Everywhere else the descriptor tells the same as the query: for every pair that the
  cache of a reachable state holds together, unless the mode is \<open>RANGE\<close> and the
  record has an included override.
\<close>

lemma descriptor_agrees_without_inclusion:
  assumes r: "reachable s"
    and known: "idToIndexCache s ident = Some i" "indexToIdCache s i = Some ident"
    and range: "mode s = RANGE \<longrightarrow>
                  ident \<notin> includedIds (overrides s) \<and> i \<notin> includedIndices (overrides s)"
  shows "descriptorSelects (getSelectionDescriptor s) ident i = checkIsRowSelected s ident i"
proof (cases "mode s")
  case NONE
  then show ?thesis using reachable_shape [OF r]
    by (simp add: modeShape_def getSelectionDescriptor_def descriptorSelects_def
        fieldOrEmpty_def checkIsRowSelected_def)
next
  case EXPLICIT
  have "i \<in> includedIndices (overrides s) \<longrightarrow> ident \<in> includedIds (overrides s)"
    using reachable_paired [OF r] EXPLICIT known
    by (auto simp add: pairedOverrides_def startRows_def)
  then show ?thesis using reachable_shape [OF r] EXPLICIT
    by (auto simp add: modeShape_def getSelectionDescriptor_def descriptorSelects_def
        fieldOrEmpty_def checkIsRowSelected_def)
next
  case RANGE
  then show ?thesis using range
    by (auto simp add: getSelectionDescriptor_def descriptorSelects_def
        fieldOrEmpty_def checkIsRowSelected_def)
next
  case ALL'
  have "i \<in> excludedIndices (overrides s) \<longrightarrow> ident \<in> excludedIds (overrides s)"
    using reachable_paired [OF r] ALL' known
    by (auto simp add: pairedOverrides_def startRows_def)
  then show ?thesis using reachable_shape [OF r] ALL'
    by (auto simp add: modeShape_def getSelectionDescriptor_def descriptorSelects_def
        fieldOrEmpty_def checkIsRowSelected_def)
qed

section \<open>Properties of fetchArtworks\<close>

declare showNat.simps [simp del]

lemma property_of_truthy: "truthy (getProperty v key) \<Longrightarrow> truthy v"
  by (cases v) simp_all

lemma httpError_message:
  "\<exists>message code. httpError response = ArtworkServiceError message code None
      \<and> messageClass message = Some StatusNotOk"
  by (simp add: httpError_def messageClass_def Let_def)

lemma message_tells_class:
  assumes "failureClass network page limit = Some c"
  shows "\<exists>message. thrownMessage (fst (fetchArtworks network page limit)) = Some message
           \<and> messageClass message = Some c"
proof (cases "page < 1 \<or> limit < 1 \<or> limit > 100")
  case True
  then show ?thesis using assms
    by (auto simp add: fetchArtworks_def failureClass_def thrownMessage_def messageClass_def)
next
  case False
  show ?thesis
  proof (cases "network (requestUrl page limit)")
    case (Inl err)
    then show ?thesis using assms False
      by (simp add: fetchArtworks_def failureClass_def thrownMessage_def messageClass_def)
  next
    case (Inr response)
    show ?thesis
    proof (cases "ok response")
      case notok: False
      obtain message code where "httpError response = ArtworkServiceError message code None"
        and "messageClass message = Some StatusNotOk"
        using httpError_message by blast
      then show ?thesis using assms False Inr notok
        by (simp add: fetchArtworks_def failureClass_def thrownMessage_def)
    next
      case isok: True
      show ?thesis
      proof (cases "json response")
        case (Inl err)
        then show ?thesis using assms False Inr isok
          by (simp add: fetchArtworks_def failureClass_def thrownMessage_def messageClass_def)
      next
        case body: (Inr parsed)
        then show ?thesis using assms False Inr isok
          by (auto simp add: fetchArtworks_def failureClass_def thrownMessage_def
              messageClass_def lacksField_def split: if_splits)
      qed
    qed
  qed
qed

lemma fetch_failure_iff:
  "(\<exists>err. fst (fetchArtworks network page limit) = Inl err)
     \<longleftrightarrow> failureClass network page limit \<noteq> None"
  by (auto simp add: fetchArtworks_def failureClass_def lacksField_def Let_def
      split: sum.splits dest: property_of_truthy)


text \<open>
  C9. \<open>fetchArtworks\<close> throws nothing but an \<open>ArtworkServiceError\<close>, and it throws
  exactly when the page is below 1 or the limit outside \<open>[1, 100]\<close> (no request is
  made then), the request fails, the response is not ok, the body does not parse, or
  the parsed body has no \<open>data\<close> or no \<open>pagination\<close>. Otherwise it makes one
  request and returns the parsed body as it is. Failures of different classes carry
  different messages.
\<close>

theorem fetchArtworks_failures:
  "(\<forall>err. fst (fetchArtworks network page limit) = Inl err \<longrightarrow>
      (\<exists>message code cause. err = ArtworkServiceError message code cause))
   \<and> ((\<exists>err. fst (fetchArtworks network page limit) = Inl err)
        \<longleftrightarrow> failureClass network page limit \<noteq> None)
   \<and> (failureClass network page limit = None \<longrightarrow>
        (\<exists>response. network (requestUrl page limit) = Inr response
           \<and> fst (fetchArtworks network page limit) = json response))
   \<and> (page < 1 \<or> limit < 1 \<or> limit > 100 \<longrightarrow>
        snd (fetchArtworks network page limit) = [])
   \<and> (\<not> (page < 1 \<or> limit < 1 \<or> limit > 100) \<longrightarrow>
        snd (fetchArtworks network page limit) = [requestUrl page limit])
   \<and> (failureClass network page limit = Some c
        \<and> failureClass network' page' limit' = Some c' \<and> c \<noteq> c' \<longrightarrow>
        thrownMessage (fst (fetchArtworks network page limit))
          \<noteq> thrownMessage (fst (fetchArtworks network' page' limit')))"
proof (intro conjI)
  show "\<forall>err. fst (fetchArtworks network page limit) = Inl err \<longrightarrow>
      (\<exists>message code cause. err = ArtworkServiceError message code cause)"
    by (auto simp add: fetchArtworks_def httpError_def Let_def split: sum.splits if_splits)
next
  show "(\<exists>err. fst (fetchArtworks network page limit) = Inl err)
        \<longleftrightarrow> failureClass network page limit \<noteq> None"
    by (rule fetch_failure_iff)
next
  show "failureClass network page limit = None \<longrightarrow>
        (\<exists>response. network (requestUrl page limit) = Inr response
           \<and> fst (fetchArtworks network page limit) = json response)"
    by (auto simp add: fetchArtworks_def failureClass_def lacksField_def Let_def
      split: sum.splits if_splits dest: property_of_truthy)
next
  show "page < 1 \<or> limit < 1 \<or> limit > 100 \<longrightarrow>
        snd (fetchArtworks network page limit) = []"
    by (auto simp add: fetchArtworks_def)
next
  show "\<not> (page < 1 \<or> limit < 1 \<or> limit > 100) \<longrightarrow>
        snd (fetchArtworks network page limit) = [requestUrl page limit]"
    by (auto simp add: fetchArtworks_def Let_def split: sum.splits)
next
  show "failureClass network page limit = Some c
        \<and> failureClass network' page' limit' = Some c' \<and> c \<noteq> c' \<longrightarrow>
        thrownMessage (fst (fetchArtworks network page limit))
          \<noteq> thrownMessage (fst (fetchArtworks network' page' limit'))"
    using message_tells_class [of network page limit c]
      message_tells_class [of network' page' limit' c']
    by auto
qed

text \<open>
  A server that answers with a well-formed body, and a network that is down: the body
  comes back unchanged, page \<open>0\<close> is refused without a request, and the two failures
  have different messages.
\<close>

theorem fetchArtworks_failures_witness:
  "fst (fetchArtworks
      (\<lambda>url. Inr \<lparr> ok = True, status = 200, statusText = ''OK'',
                     json = Inr (JObject [(''pagination'', JObject [(''total'', JNumber 3)]),
                                          (''data'', JArray [])]) \<rparr>) 1 12)
     = Inr (JObject [(''pagination'', JObject [(''total'', JNumber 3)]), (''data'', JArray [])])
   \<and> snd (fetchArtworks (\<lambda>url. Inl (TypeError ''Failed to fetch'')) 0 12) = []
   \<and> (\<exists>err. fst (fetchArtworks (\<lambda>url. Inl (TypeError ''Failed to fetch'')) 1 12) = Inl err)
   \<and> thrownMessage (fst (fetchArtworks (\<lambda>url. Inl (TypeError ''Failed to fetch'')) 1 12))
       \<noteq> thrownMessage (fst (fetchArtworks (\<lambda>url. Inl (TypeError ''Failed to fetch'')) 0 12))"
proof -
  let ?up = "\<lambda>url :: string. (Inr \<lparr> ok = True, status = 200, statusText = ''OK'',
                     json = Inr (JObject [(''pagination'', JObject [(''total'', JNumber 3)]),
                                          (''data'', JArray [])]) \<rparr> :: JsError + HttpResponse)"
  let ?down = "\<lambda>url :: string. (Inl (TypeError ''Failed to fetch'') :: JsError + HttpResponse)"
  have good: "failureClass ?up 1 12 = None"
    by (simp add: failureClass_def lacksField_def)
  have down: "failureClass ?down 1 12 = Some RequestFailed"
    by (simp add: failureClass_def)
  have bad: "failureClass ?down 0 12 = Some InvalidArguments"
    by (simp add: failureClass_def)
  have args: "(0::int) < 1 \<or> (12::int) < 1 \<or> (12::int) > 100" by simp
  show ?thesis
    using fetchArtworks_failures [of ?up 1 12 RequestFailed ?down 1 12 InvalidArguments]
      fetchArtworks_failures [of ?down 1 12 RequestFailed ?down 0 12 InvalidArguments]
      fetchArtworks_failures [of ?down 0 12 InvalidArguments ?down 1 12 RequestFailed]
      good down bad args
    by auto
qed

end
